theory Spec2Isabelle
  imports Main "HOL-Library.Word"
begin

section \<open>Strings, characters and the Unicode database\<close>

text \<open>
  A Python \<^verbatim>\<open>str\<close> is a sequence of Unicode code points. A code point is a natural
  number; \<open>str\<close> turns an ASCII literal into the code points of its characters.
\<close>

type_synonym codepoint = nat
type_synonym pystr = "codepoint list"

definition ord :: "char \<Rightarrow> codepoint" where
  "ord c = of_char c"

definition str :: "string \<Rightarrow> pystr" where
  "str s = map ord s"

text \<open>
  \<^verbatim>\<open>\w\<close>, \<^verbatim>\<open>\d\<close> and \<^verbatim>\<open>str.lower\<close> consult the Unicode character database of the
  Python runtime, which is not part of the sources. Its ASCII rows are written out below;
  the rows of the other code points are a parameter of the model:
  \<^item> \<open>uni_isalnum\<close>: \<^verbatim>\<open>str.isalnum\<close> of one code point (what \<^verbatim>\<open>\w\<close> tests, besides \<^verbatim>\<open>_\<close>);
  \<^item> \<open>uni_isdecimal\<close>: \<^verbatim>\<open>str.isdecimal\<close> of one code point (what \<^verbatim>\<open>\d\<close> tests);
  \<^item> \<open>uni_lower\<close>: \<^verbatim>\<open>str.lower\<close> of a string that is not pure ASCII (a function of the
    whole string: the lowercase of a capital sigma depends on its neighbours, and one
    code point may lowercase to two).
\<close>

record unicode_db =
  uni_isalnum :: "codepoint \<Rightarrow> bool"
  uni_isdecimal :: "codepoint \<Rightarrow> bool"
  uni_lower :: "pystr \<Rightarrow> pystr"

definition is_ascii :: "codepoint \<Rightarrow> bool" where
  "is_ascii c = (c < 128)"

definition ascii_digit :: "codepoint \<Rightarrow> bool" where
  "ascii_digit c = (48 \<le> c \<and> c \<le> 57)"

definition ascii_upper :: "codepoint \<Rightarrow> bool" where
  "ascii_upper c = (65 \<le> c \<and> c \<le> 90)"

definition ascii_alpha :: "codepoint \<Rightarrow> bool" where
  "ascii_alpha c = (ascii_upper c \<or> (97 \<le> c \<and> c \<le> 122))"

text \<open>\<^verbatim>\<open>\d\<close> on a \<^verbatim>\<open>str\<close> pattern: a Unicode decimal digit.\<close>

definition is_digit :: "unicode_db \<Rightarrow> codepoint \<Rightarrow> bool" where
  "is_digit ucd c = (if is_ascii c then ascii_digit c else uni_isdecimal ucd c)"

text \<open>\<^verbatim>\<open>\w\<close> on a \<^verbatim>\<open>str\<close> pattern: an alphanumeric code point or the underscore.\<close>

definition is_word :: "unicode_db \<Rightarrow> codepoint \<Rightarrow> bool" where
  "is_word ucd c =
     (if is_ascii c then ascii_alpha c \<or> ascii_digit c \<or> c = ord CHR ''_''
      else uni_isalnum ucd c)"

definition ascii_lower :: "codepoint \<Rightarrow> codepoint" where
  "ascii_lower c = (if ascii_upper c then c + 32 else c)"

text \<open>\<^verbatim>\<open>str.lower()\<close>: CPython lowercases a pure ASCII string character by character.\<close>

definition str_lower :: "unicode_db \<Rightarrow> pystr \<Rightarrow> pystr" where
  "str_lower ucd s = (if list_all is_ascii s then map ascii_lower s else uni_lower ucd s)"

section \<open>The combined regular expression of \<open>replace_text\<close>\<close>

text \<open>
  \<^verbatim>\<open>
  html_re = r'<.*?>'
  latex_re = r'\$.*?\$'
  newline_re = r'\n'
  user_re = r'@\w+'
  digits_re = r'[+-]?\d+'
  tags_re = r'\[.+\]'
  combined_re = re.compile('|'.join([html_re, latex_re, newline_re, user_re, digits_re, tags_re]))
  \<close>
  Each matcher below tries one alternative at the start of a string, the way Python's
  backtracking matcher does, and returns what is left of the string after the match
  (\<open>None\<close>: no match here). No flag is given, so \<^verbatim>\<open>.\<close> matches every character but
  the newline.
\<close>

definition newline :: codepoint where
  "newline = 10"

text \<open>
  \<^verbatim>\<open>.*?d\<close>, lazy: the delimiter \<open>d\<close> is tried first at every position, and only when
  it is not there does \<^verbatim>\<open>.\<close> take one more character.
\<close>

fun lazy_until :: "codepoint \<Rightarrow> pystr \<Rightarrow> pystr option" where
  "lazy_until d [] = None"
| "lazy_until d (c # cs) =
     (if c = d then Some cs
      else if c \<noteq> newline then lazy_until d cs
      else None)"

text \<open>
  \<^verbatim>\<open>.*d\<close>, greedy: \<^verbatim>\<open>.\<close> takes the character first, and the delimiter is tried
  here only after the rest has failed (backtracking).
\<close>

fun greedy_until :: "codepoint \<Rightarrow> pystr \<Rightarrow> pystr option" where
  "greedy_until d [] = None"
| "greedy_until d (c # cs) =
     (case (if c \<noteq> newline then greedy_until d cs else None) of
        Some r \<Rightarrow> Some r
      | None \<Rightarrow> if c = d then Some cs else None)"

text \<open>A greedy run \<^verbatim>\<open>x+\<close> of a character class, with nothing after it to backtrack for.\<close>

definition many1 :: "(codepoint \<Rightarrow> bool) \<Rightarrow> pystr \<Rightarrow> pystr option" where
  "many1 p s = (if takeWhile p s = [] then None else Some (dropWhile p s))"

fun match_html :: "pystr \<Rightarrow> pystr option" where
  "match_html [] = None"
| "match_html (c # cs) = (if c = ord CHR ''<'' then lazy_until (ord CHR ''>'') cs else None)"

fun match_latex :: "pystr \<Rightarrow> pystr option" where
  "match_latex [] = None"
| "match_latex (c # cs) = (if c = ord CHR ''$'' then lazy_until (ord CHR ''$'') cs else None)"

fun match_newline :: "pystr \<Rightarrow> pystr option" where
  "match_newline [] = None"
| "match_newline (c # cs) = (if c = newline then Some cs else None)"

fun match_user :: "unicode_db \<Rightarrow> pystr \<Rightarrow> pystr option" where
  "match_user ucd [] = None"
| "match_user ucd (c # cs) = (if c = ord CHR ''@'' then many1 (is_word ucd) cs else None)"

text \<open>
  \<^verbatim>\<open>[+-]?\d+\<close>: the optional sign is taken when it is there; if no digit follows, the
  matcher backtracks and tries the digits without the sign.
\<close>

fun match_digits :: "unicode_db \<Rightarrow> pystr \<Rightarrow> pystr option" where
  "match_digits ucd [] = None"
| "match_digits ucd (c # cs) =
     (if c = ord CHR ''+'' \<or> c = ord CHR ''-''
      then (case many1 (is_digit ucd) cs of
              Some r \<Rightarrow> Some r
            | None \<Rightarrow> many1 (is_digit ucd) (c # cs))
      else many1 (is_digit ucd) (c # cs))"

text \<open>\<^verbatim>\<open>\[.+\]\<close>: the bracket, one character, then the greedy \<^verbatim>\<open>.*\]\<close>.\<close>

fun match_tags :: "pystr \<Rightarrow> pystr option" where
  "match_tags [] = None"
| "match_tags [c] = None"
| "match_tags (c # x # cs) =
     (if c = ord CHR ''['' \<and> x \<noteq> newline then greedy_until (ord CHR '']'') cs else None)"

text \<open>The alternation: the first alternative that matches wins.\<close>

definition orelse :: "'a option \<Rightarrow> 'a option \<Rightarrow> 'a option" where
  "orelse a b = (case a of Some r \<Rightarrow> Some r | None \<Rightarrow> b)"

definition combined_re :: "unicode_db \<Rightarrow> pystr \<Rightarrow> pystr option" where
  "combined_re ucd s =
     orelse (match_html s)
       (orelse (match_latex s)
         (orelse (match_newline s)
           (orelse (match_user ucd s)
             (orelse (match_digits ucd s) (match_tags s)))))"

text \<open>
  \<^verbatim>\<open>combined_re.sub('', s)\<close>: scan from the left; where the pattern matches, drop the
  match and go on after it; elsewhere keep the character. No alternative matches the
  empty string.
\<close>

function re_sub :: "unicode_db \<Rightarrow> pystr \<Rightarrow> pystr" where
  "re_sub ucd [] = []"
| "re_sub ucd (c # cs) =
     (case combined_re ucd (c # cs) of
        Some r \<Rightarrow> re_sub ucd r
      | None \<Rightarrow> c # re_sub ucd cs)"
  by pat_completeness auto
termination
proof (relation "measure (\<lambda>(ucd, s). length s)")
  show "wf (measure (\<lambda>(ucd :: unicode_db, s :: pystr). length s))" by simp
next
  fix ucd :: unicode_db and c :: codepoint and cs :: pystr
  assume "combined_re ucd (c # cs) = None"
  show "((ucd, cs), (ucd, c # cs)) \<in> measure (\<lambda>(ucd, s). length s)" by simp
next
  fix ucd :: unicode_db and c :: codepoint and cs r :: pystr
  assume m: "combined_re ucd (c # cs) = Some r"
  have lazy: "lazy_until d s = Some t \<Longrightarrow> length t < length s" for d s t
    by (induction s) (auto split: if_splits)
  have greedy: "greedy_until d s = Some t \<Longrightarrow> length t \<le> length s" for d s t
    by (induction s arbitrary: t) (fastforce split: if_splits option.splits)+
  have many: "many1 p s = Some t \<Longrightarrow> length t \<le> length s" for p s t
    by (auto simp: many1_def length_dropWhile_le split: if_splits)
  have h: "match_html (c # cs) = Some r \<Longrightarrow> length r \<le> length cs"
    by (auto split: if_splits dest: lazy less_imp_le)
  have l: "match_latex (c # cs) = Some r \<Longrightarrow> length r \<le> length cs"
    by (auto split: if_splits dest: lazy less_imp_le)
  have n: "match_newline (c # cs) = Some r \<Longrightarrow> length r \<le> length cs"
    by (auto split: if_splits)
  have u: "match_user ucd (c # cs) = Some r \<Longrightarrow> length r \<le> length cs"
    by (auto split: if_splits dest: many)
  have d: "match_digits ucd (c # cs) = Some r \<Longrightarrow> length r \<le> length cs"
  proof -
    assume a: "match_digits ucd (c # cs) = Some r"
    have "many1 (is_digit ucd) (c # cs) = Some r \<Longrightarrow> length r \<le> length cs"
      using length_dropWhile_le [of "is_digit ucd" cs]
      by (auto simp: many1_def split: if_splits)
    with a show ?thesis by (auto split: if_splits option.splits dest: many)
  qed
  have t: "match_tags (c # cs) = Some r \<Longrightarrow> length r \<le> length cs"
  proof (cases cs)
    case Nil
    then show "match_tags (c # cs) = Some r \<Longrightarrow> ?thesis" by simp
  next
    case (Cons x xs)
    then show "match_tags (c # cs) = Some r \<Longrightarrow> ?thesis"
      by (auto split: if_splits dest: greedy)
  qed
  from m h l n u d t have "length r \<le> length cs"
    by (auto simp: combined_re_def orelse_def split: option.splits)
  then show "((ucd, r), (ucd, c # cs)) \<in> measure (\<lambda>(ucd, s). length s)" by simp
qed

section \<open>Tables\<close>

text \<open>
  A \<^verbatim>\<open>DataFrame\<close> with the five columns that \<^verbatim>\<open>load_data\<close> declares, as the list of
  its rows in index order. \<open>None\<close> is the missing value \<^verbatim>\<open>pd.NA\<close>. The column
  \<^verbatim>\<open>text\<close> is the field \<open>text_col\<close>. The frame that \<^verbatim>\<open>tokenize\<close> returns has one
  more column, \<^verbatim>\<open>tokens\<close>.
\<close>

record row =
  post_id :: "64 word option"
  parent_id :: "64 word option"
  comment_id :: "64 word option"
  text_col :: "pystr option"
  category :: "pystr option"

record tokenized_row = row +
  tokens :: "pystr list"

datatype py_error = DataLoadError | TypeError | OtherError string

text \<open>
  \<^verbatim>\<open>df.assign(text=col)\<close>: a copy of the frame whose \<^verbatim>\<open>text\<close> column is \<open>col\<close>, row by
  row; \<^verbatim>\<open>df.assign(tokens=col)\<close>: a copy with the new column.
\<close>

definition assign_text :: "row list \<Rightarrow> pystr option list \<Rightarrow> row list" where
  "assign_text df col = map (\<lambda>(r, t). r\<lparr>text_col := t\<rparr>) (zip df col)"

definition add_tokens :: "row \<Rightarrow> pystr list \<Rightarrow> tokenized_row" where
  "add_tokens r ts =
     \<lparr>post_id = post_id r, parent_id = parent_id r, comment_id = comment_id r,
      text_col = text_col r, category = category r, tokens = ts\<rparr>"

definition assign_tokens :: "row list \<Rightarrow> pystr list list \<Rightarrow> tokenized_row list" where
  "assign_tokens df col = map (\<lambda>(r, ts). add_tokens r ts) (zip df col)"

text \<open>
  The string methods of a column of dtype \<^verbatim>\<open>string\<close> work on the values that are there
  and leave a missing value missing. \<^verbatim>\<open>str.replace(pat, '')\<close> with a compiled pattern
  is the regular-expression substitution \<^verbatim>\<open>pat.sub('', value)\<close> on each value (the
  source passes no \<^verbatim>\<open>regex\<close> argument; this is the reading of the pandas 1.x that
  introduced the dtypes the loader declares); \<^verbatim>\<open>str.lower()\<close> is the \<^verbatim>\<open>lower\<close> of each
  value.
\<close>

definition series_str_replace :: "unicode_db \<Rightarrow> pystr option list \<Rightarrow> pystr option list" where
  "series_str_replace ucd col = map (map_option (re_sub ucd)) col"

definition series_str_lower :: "unicode_db \<Rightarrow> pystr option list \<Rightarrow> pystr option list" where
  "series_str_lower ucd col = map (map_option (str_lower ucd)) col"

text \<open>
  \<^verbatim>\<open>Series.apply(f)\<close> calls \<open>f\<close> on every value of the column in order, the missing
  ones too; the first exception ends the call.
\<close>

fun series_apply :: "('a \<Rightarrow> py_error + 'b) \<Rightarrow> 'a list \<Rightarrow> py_error + 'b list" where
  "series_apply f [] = Inr []"
| "series_apply f (x # xs) =
     (case f x of
        Inl e \<Rightarrow> Inl e
      | Inr y \<Rightarrow> (case series_apply f xs of Inl e \<Rightarrow> Inl e | Inr ys \<Rightarrow> Inr (y # ys)))"

section \<open>The stages\<close>

text \<open>\<^verbatim>\<open>return df.assign(text=lambda x: x.text.str.replace(combined_re, ''))\<close>\<close>

definition replace_text :: "unicode_db \<Rightarrow> row list \<Rightarrow> row list" where
  "replace_text ucd df = assign_text df (series_str_replace ucd (map text_col df))"

text \<open>\<^verbatim>\<open>return df.assign(text=lambda x: x.text.str.lower())\<close>\<close>

definition lowercase :: "unicode_db \<Rightarrow> row list \<Rightarrow> row list" where
  "lowercase ucd df = assign_text df (series_str_lower ucd (map text_col df))"

text \<open>
  \<^verbatim>\<open>return df.assign(tokens=lambda x: x.text.apply(tokenizer))\<close>.
  A tokenizer is any callable: it is handed the value of the column as it is and either
  returns the tokens or raises.
\<close>

type_synonym tokenizer = "pystr option \<Rightarrow> py_error + pystr list"

definition tokenize :: "row list \<Rightarrow> tokenizer \<Rightarrow> py_error + tokenized_row list" where
  "tokenize df tokenizer =
     (case series_apply tokenizer (map text_col df) of
        Inl e \<Rightarrow> Inl e
      | Inr col \<Rightarrow> Inr (assign_tokens df col))"

section \<open>The default tokenizer\<close>

text \<open>
  \<^verbatim>\<open>nltk.tokenize.word_tokenize\<close>, the default of the parameter \<^verbatim>\<open>tokenizer\<close>, is a
  library function that is not part of the sources. The definitions of this section are
  modelled from the spec, which describes it as a word-level tokenizer that splits on
  whitespace and punctuation boundaries, retaining punctuation as separate tokens, with
  the capability \<^verbatim>\<open>string -> ordered sequence of strings\<close>.
\<close>

text \<open>Modelled from the spec: the whitespace and the punctuation of ASCII.\<close>

definition is_space :: "codepoint \<Rightarrow> bool" where
  "is_space c = (c = 32 \<or> (9 \<le> c \<and> c \<le> 13))"

definition is_punct :: "codepoint \<Rightarrow> bool" where
  "is_punct c =
     ((33 \<le> c \<and> c \<le> 47) \<or> (58 \<le> c \<and> c \<le> 64) \<or> (91 \<le> c \<and> c \<le> 96) \<or> (123 \<le> c \<and> c \<le> 126))"

definition flush :: "pystr \<Rightarrow> pystr list" where
  "flush w = (if w = [] then [] else [w])"

text \<open>
  Modelled from the spec: the split. Whitespace ends the word in progress \<open>w\<close>; a
  punctuation character ends it and is a token of its own; any other character joins it.
\<close>

fun split_words :: "pystr \<Rightarrow> pystr \<Rightarrow> pystr list" where
  "split_words w [] = flush w"
| "split_words w (c # cs) =
     (if is_space c then flush w @ split_words [] cs
      else if is_punct c then flush w @ [c] # split_words [] cs
      else split_words (w @ [c]) cs)"

text \<open>
  Modelled from the spec: the tokenizer. A value that is not a string (the missing
  value) is outside its capability: the call raises \<^verbatim>\<open>TypeError\<close>.
\<close>

definition word_tokenize :: tokenizer where
  "word_tokenize v = (case v of None \<Rightarrow> Inl TypeError | Some s \<Rightarrow> Inr (split_words [] s))"

section \<open>The loader\<close>

text \<open>
  \<^verbatim>\<open>pandas.read_csv\<close> and the file system it reads are not part of the sources. The
  definitions of this section, up to \<open>read_csv\<close>, are modelled from the spec, which says
  of the Loader: the three identifier columns coerce to a nullable 64-bit integer type,
  \<^verbatim>\<open>text\<close> to a nullable string type, \<^verbatim>\<open>category\<close> to a categorical type; if \<^verbatim>\<open>nrows\<close>
  is provided, only the first \<^verbatim>\<open>nrows\<close> data rows are read; the load fails with a
  \<^verbatim>\<open>DataLoadError\<close> if the file does not exist, is unreadable, or its columns cannot be
  coerced to the declared types (e.g. non-numeric content in an identifier column).
\<close>

text \<open>
  Modelled from the spec: the file system. A file is the list of its data rows, each
  with the raw content of the five cells; an empty cell is a missing value. A path
  either names no file, or a file that cannot be read, or a file with its rows.
\<close>

record raw_row =
  raw_post_id :: pystr
  raw_parent_id :: pystr
  raw_comment_id :: pystr
  raw_text :: pystr
  raw_category :: pystr

datatype file_state = Unreadable | Content "raw_row list"

type_synonym filesystem = "string \<Rightarrow> file_state option"

text \<open>
  Modelled from the spec: the coercion of a cell to its declared type. An identifier is
  an optional sign and decimal digits, within 64 bits; any other content that is not
  empty is the coercion failure.
\<close>

fun digits_value :: "nat \<Rightarrow> pystr \<Rightarrow> nat option" where
  "digits_value acc [] = Some acc"
| "digits_value acc (c # cs) =
     (if ascii_digit c then digits_value (10 * acc + (c - 48)) cs else None)"

definition parse_int :: "pystr \<Rightarrow> int option" where
  "parse_int s =
     (case s of
        [] \<Rightarrow> None
      | c # cs \<Rightarrow>
          if c = ord CHR ''-'' then
            (if cs = [] then None else map_option (\<lambda>n. - int n) (digits_value 0 cs))
          else if c = ord CHR ''+'' then
            (if cs = [] then None else map_option int (digits_value 0 cs))
          else map_option int (digits_value 0 s))"

definition int64_literal :: "pystr \<Rightarrow> bool" where
  "int64_literal s =
     (case parse_int s of None \<Rightarrow> False | Some n \<Rightarrow> - (2 ^ 63) \<le> n \<and> n < 2 ^ 63)"

definition coerce_int64 :: "pystr \<Rightarrow> py_error + 64 word option" where
  "coerce_int64 s =
     (if s = [] then Inr None
      else if int64_literal s then Inr (map_option word_of_int (parse_int s))
      else Inl DataLoadError)"

definition coerce_string :: "pystr \<Rightarrow> pystr option" where
  "coerce_string s = (if s = [] then None else Some s)"

definition coerce_row :: "raw_row \<Rightarrow> py_error + row" where
  "coerce_row raw =
     (case coerce_int64 (raw_post_id raw) of
        Inl e \<Rightarrow> Inl e
      | Inr p \<Rightarrow>
     (case coerce_int64 (raw_parent_id raw) of
        Inl e \<Rightarrow> Inl e
      | Inr q \<Rightarrow>
     (case coerce_int64 (raw_comment_id raw) of
        Inl e \<Rightarrow> Inl e
      | Inr c \<Rightarrow>
          Inr \<lparr>post_id = p, parent_id = q, comment_id = c,
               text_col = coerce_string (raw_text raw),
               category = coerce_string (raw_category raw)\<rparr>)))"

text \<open>
  Modelled from the spec: the read. It fails with \<^verbatim>\<open>DataLoadError\<close> when the file does not
  exist, is unreadable, or a row that is read has a cell that cannot be coerced.
\<close>

definition read_csv :: "filesystem \<Rightarrow> string \<Rightarrow> nat option \<Rightarrow> py_error + row list" where
  "read_csv fs file_name nrows =
     (case fs file_name of
        None \<Rightarrow> Inl DataLoadError
      | Some Unreadable \<Rightarrow> Inl DataLoadError
      | Some (Content raws) \<Rightarrow>
          series_apply coerce_row (case nrows of None \<Rightarrow> raws | Some n \<Rightarrow> take n raws))"

text \<open>
  \<^verbatim>\<open>return pd.read_csv(file_name, dtype={...}, nrows=nrows)\<close>: nothing is caught, so
  what \<^verbatim>\<open>read_csv\<close> raises, \<^verbatim>\<open>load_data\<close> raises.
\<close>

definition load_data :: "filesystem \<Rightarrow> string \<Rightarrow> nat option \<Rightarrow> py_error + row list" where
  "load_data fs file_name nrows = read_csv fs file_name nrows"

section \<open>The pipeline\<close>

text \<open>
  \<^verbatim>\<open>df.pipe(f)\<close> is \<^verbatim>\<open>f(df)\<close>; an exception raised on the way leaves the chain.
  \<^verbatim>\<open>
  return (load_data(file_name)
          .pipe(lowercase)
          .pipe(replace_text)
          .pipe(tokenize)
          )
  \<close>
  The chain calls \<^verbatim>\<open>tokenize\<close> with its default tokenizer.
\<close>

definition pipe :: "py_error + 'a \<Rightarrow> ('a \<Rightarrow> py_error + 'b) \<Rightarrow> py_error + 'b" where
  "pipe v f = (case v of Inl e \<Rightarrow> Inl e | Inr df \<Rightarrow> f df)"

definition preprocess :: "unicode_db \<Rightarrow> filesystem \<Rightarrow> string \<Rightarrow> py_error + tokenized_row list" where
  "preprocess ucd fs file_name =
     pipe (pipe (pipe (load_data fs file_name None)
                      (\<lambda>df. Inr (lowercase ucd df)))
                (\<lambda>df. Inr (replace_text ucd df)))
          (\<lambda>df. tokenize df word_tokenize)"

section \<open>Concrete data for the closed examples\<close>

text \<open>
  An excerpt of the Unicode character database, for the closed examples: its rows for
  U+0130 (LATIN CAPITAL LETTER I WITH DOT ABOVE, a letter, whose lowercase is the two
  code points U+0069 U+0307) and U+0307 (COMBINING DOT ABOVE, a mark, not alphanumeric).
  The examples use no other code point outside ASCII.
\<close>

definition lower_excerpt :: "pystr \<Rightarrow> pystr" where
  "lower_excerpt s = concat (map (\<lambda>c. if c = 304 then [105, 775] else [ascii_lower c]) s)"

definition ucd_excerpt :: unicode_db where
  "ucd_excerpt =
     \<lparr>uni_isalnum = (\<lambda>c. c = 304), uni_isdecimal = (\<lambda>c. False), uni_lower = lower_excerpt\<rparr>"

text \<open>
  The reading of the bracket pattern to compare the code with: the text with everything
  from its first \<^verbatim>\<open>[\<close> to its last \<^verbatim>\<open>]\<close> deleted.
\<close>

definition spec_delete_first_to_last :: "pystr \<Rightarrow> pystr" where
  "spec_delete_first_to_last s =
     takeWhile (\<lambda>c. c \<noteq> ord CHR ''['') s @ rev (takeWhile (\<lambda>c. c \<noteq> ord CHR '']'') (rev s))"

section \<open>Evaluation and helper lemmas\<close>

lemmas char_classes = is_ascii_def ascii_digit_def ascii_upper_def ascii_alpha_def is_digit_def
  is_word_def ascii_lower_def newline_def ord_def str_def

lemmas re_defs = many1_def orelse_def combined_re_def

subsection \<open>The stages, row by row\<close>

lemma assign_text_map:
  "assign_text df (map f (map text_col df)) = map (\<lambda>r. r\<lparr>text_col := f (text_col r)\<rparr>) df"
  by (induction df) (simp_all add: assign_text_def)

lemma lowercase_rows:
  "lowercase ucd df = map (\<lambda>r. r\<lparr>text_col := map_option (str_lower ucd) (text_col r)\<rparr>) df"
  unfolding lowercase_def series_str_lower_def by (rule assign_text_map)

lemma replace_text_rows:
  "replace_text ucd df = map (\<lambda>r. r\<lparr>text_col := map_option (re_sub ucd) (text_col r)\<rparr>) df"
  unfolding replace_text_def series_str_replace_def by (rule assign_text_map)

lemma series_apply_Inr:
  "series_apply f xs = Inr ys \<Longrightarrow> length ys = length xs \<and> (\<forall>i<length xs. f (xs ! i) = Inr (ys ! i))"
proof (induction xs arbitrary: ys)
  case Nil
  then show ?case by simp
next
  case (Cons x xs)
  from Cons.prems obtain y ys' where fx: "f x = Inr y" and rest: "series_apply f xs = Inr ys'"
    and ys: "ys = y # ys'"
    by (auto split: sum.splits)
  from Cons.IH [OF rest] have len: "length ys' = length xs"
    and nth: "\<And>i. i < length xs \<Longrightarrow> f (xs ! i) = Inr (ys' ! i)" by auto
  show ?case
  proof (intro conjI allI impI)
    show "length ys = length (x # xs)" using ys len by simp
  next
    fix i assume "i < length (x # xs)"
    then show "f ((x # xs) ! i) = Inr (ys ! i)"
      using fx nth ys by (cases i) auto
  qed
qed

lemma series_apply_Inl:
  "series_apply f xs = Inl e \<Longrightarrow> \<exists>x\<in>set xs. f x = Inl e"
  by (induction xs) (auto split: sum.splits)

lemma series_apply_raises:
  "x \<in> set xs \<Longrightarrow> f x = Inl e \<Longrightarrow> \<exists>e'. series_apply f xs = Inl e'"
  by (induction xs) (auto split: sum.splits)

lemma series_apply_returns:
  "(\<forall>x\<in>set xs. \<exists>y. f x = Inr y) \<Longrightarrow> \<exists>ys. series_apply f xs = Inr ys"
  by (induction xs) (auto split: sum.splits)

lemma tokenize_Inr:
  assumes "tokenize df tok = Inr out"
  shows "\<exists>col. series_apply tok (map text_col df) = Inr col \<and> length col = length df
           \<and> out = map (\<lambda>(r, ts). add_tokens r ts) (zip df col)"
proof -
  from assms obtain col where c: "series_apply tok (map text_col df) = Inr col"
    and o: "out = assign_tokens df col"
    by (auto simp: tokenize_def split: sum.splits)
  from series_apply_Inr [OF c] have "length col = length df" by simp
  with c o show ?thesis by (auto simp: assign_tokens_def)
qed

lemma truncate_add_tokens: "row.truncate (add_tokens r ts) = r"
  by (simp add: add_tokens_def row.truncate_def)

lemma tokenize_rows:
  assumes "tokenize df tok = Inr out"
  shows "length out = length df" and "map row.truncate out = df"
    and "\<And>i. i < length df \<Longrightarrow> tok (text_col (df ! i)) = Inr (tokens (out ! i))"
proof -
  from tokenize_Inr [OF assms] obtain col where c: "series_apply tok (map text_col df) = Inr col"
    and len: "length col = length df"
    and o: "out = map (\<lambda>(r, ts). add_tokens r ts) (zip df col)" by blast
  show "length out = length df" using o len by simp
  show "map row.truncate out = df"
    using o len by (simp add: list_eq_iff_nth_eq truncate_add_tokens)
  fix i assume i: "i < length df"
  with series_apply_Inr [OF c] have "tok (text_col (df ! i)) = Inr (col ! i)" by simp
  moreover have "tokens (out ! i) = col ! i" using o len i by (simp add: add_tokens_def)
  ultimately show "tok (text_col (df ! i)) = Inr (tokens (out ! i))" by simp
qed

lemma tokenize_returns:
  assumes "\<forall>r\<in>set df. \<exists>ts. tok (text_col r) = Inr ts"
  shows "\<exists>out. tokenize df tok = Inr out"
proof -
  from assms have "\<forall>x\<in>set (map text_col df). \<exists>ts. tok x = Inr ts" by simp
  from series_apply_returns [OF this] obtain col where "series_apply tok (map text_col df) = Inr col" ..
  then show ?thesis by (simp add: tokenize_def)
qed

lemma tokenize_Inl:
  "tokenize df tok = Inl e \<Longrightarrow> \<exists>r\<in>set df. tok (text_col r) = Inl e"
  by (auto simp: tokenize_def split: sum.splits dest!: series_apply_Inl)

lemma tokenize_raises:
  assumes "r \<in> set df" and "tok (text_col r) = Inl e"
  shows "\<exists>e'. tokenize df tok = Inl e'"
proof -
  from assms(1) have "text_col r \<in> set (map text_col df)" by simp
  with series_apply_raises [of "text_col r" "map text_col df" tok e] assms(2) obtain e' where
    "series_apply tok (map text_col df) = Inl e'" by blast
  then show ?thesis by (simp add: tokenize_def)
qed

subsection \<open>Lower case and the pattern\<close>

lemma ascii_lower_special:
  "d \<in> {10, 36, 43, 45, 60, 62, 64, 91, 93} \<Longrightarrow> (ascii_lower c = d) = (c = d)"
  by (auto simp: ascii_lower_def ascii_upper_def)

lemma is_word_ascii_lower: "is_word ucd (ascii_lower c) = is_word ucd c"
  by (auto simp: char_classes)

lemma is_digit_ascii_lower: "is_digit ucd (ascii_lower c) = is_digit ucd c"
  by (auto simp: char_classes)

lemma lazy_until_lower:
  "d \<in> {36, 62} \<Longrightarrow>
     lazy_until d (map ascii_lower s) = map_option (map ascii_lower) (lazy_until d s)"
proof (induction s)
  case Nil
  then show ?case by simp
next
  case (Cons c cs)
  have d: "(ascii_lower c = d) = (c = d)" using Cons.prems by (intro ascii_lower_special) auto
  have n: "(ascii_lower c = newline) = (c = newline)"
    unfolding newline_def by (intro ascii_lower_special) simp
  show ?case using Cons by (simp add: d n)
qed

lemma greedy_until_lower:
  "greedy_until 93 (map ascii_lower s) = map_option (map ascii_lower) (greedy_until 93 s)"
proof (induction s)
  case Nil
  then show ?case by simp
next
  case (Cons c cs)
  have d: "(ascii_lower c = 93) = (c = 93)" by (intro ascii_lower_special) simp
  have n: "(ascii_lower c = 10) = (c = 10)" by (intro ascii_lower_special) simp
  show ?case
  proof (cases "c = 10")
    case True
    with n have "ascii_lower c = 10" by simp
    with True show ?thesis by (simp add: newline_def)
  next
    case False
    with n have "ascii_lower c \<noteq> 10" by simp
    with False Cons d show ?thesis by (simp add: newline_def split: option.splits)
  qed
qed

lemma many1_lower:
  assumes "\<And>c. p (ascii_lower c) = p c"
  shows "many1 p (map ascii_lower s) = map_option (map ascii_lower) (many1 p s)"
proof -
  have "p \<circ> ascii_lower = p" using assms by (simp add: fun_eq_iff)
  then show ?thesis by (simp add: many1_def takeWhile_map dropWhile_map)
qed

lemma combined_re_lower:
  "combined_re ucd (map ascii_lower s) = map_option (map ascii_lower) (combined_re ucd s)"
proof (cases s)
  case Nil
  then show ?thesis by (simp add: re_defs)
next
  case (Cons c cs)
  have sp: "\<And>d. d \<in> {10, 36, 43, 45, 60, 62, 64, 91, 93} \<Longrightarrow> (ascii_lower c = d) = (c = d)"
    by (rule ascii_lower_special)
  have h: "match_html (map ascii_lower s) = map_option (map ascii_lower) (match_html s)"
    using Cons sp [of 60] by (simp add: ord_def lazy_until_lower)
  have l: "match_latex (map ascii_lower s) = map_option (map ascii_lower) (match_latex s)"
    using Cons sp [of 36] by (simp add: ord_def lazy_until_lower)
  have n: "match_newline (map ascii_lower s) = map_option (map ascii_lower) (match_newline s)"
    using Cons sp [of 10] by (simp add: newline_def)
  have u: "match_user ucd (map ascii_lower s) = map_option (map ascii_lower) (match_user ucd s)"
    using Cons sp [of 64] by (simp add: ord_def many1_lower is_word_ascii_lower)
  have m: "\<And>t. many1 (is_digit ucd) (map ascii_lower t)
              = map_option (map ascii_lower) (many1 (is_digit ucd) t)"
    by (rule many1_lower) (rule is_digit_ascii_lower)
  have m': "\<And>x t. many1 (is_digit ucd) (ascii_lower x # map ascii_lower t)
              = map_option (map ascii_lower) (many1 (is_digit ucd) (x # t))"
    using m by (metis list.simps(9))
  have d: "match_digits ucd (map ascii_lower s) = map_option (map ascii_lower) (match_digits ucd s)"
  proof (cases "c = 43 \<or> c = 45")
    case True
    with sp [of 43] sp [of 45] have "ascii_lower c = 43 \<or> ascii_lower c = 45" by simp
    with True Cons show ?thesis
      by (simp add: ord_def m m' split: option.splits)
  next
    case False
    with sp [of 43] sp [of 45] have "\<not> (ascii_lower c = 43 \<or> ascii_lower c = 45)" by simp
    with False Cons show ?thesis
      by (simp add: ord_def m')
  qed
  have t: "match_tags (map ascii_lower s) = map_option (map ascii_lower) (match_tags s)"
  proof (cases cs)
    case Nil
    with Cons show ?thesis by simp
  next
    case (Cons x xs)
    have "(ascii_lower x = newline) = (x = newline)"
      unfolding newline_def by (intro ascii_lower_special) simp
    with Cons \<open>s = c # cs\<close> sp [of 91] show ?thesis
      by (simp add: ord_def greedy_until_lower)
  qed
  show ?thesis
    unfolding combined_re_def h l n u d t
    by (simp add: orelse_def split: option.splits)
qed

lemma re_sub_lower: "re_sub ucd (map ascii_lower s) = map ascii_lower (re_sub ucd s)"
proof (induction ucd s rule: re_sub.induct)
  case (1 ucd)
  then show ?case by simp
next
  case (2 ucd c cs)
  show ?case
  proof (cases "combined_re ucd (c # cs)")
    case None
    then have "combined_re ucd (ascii_lower c # map ascii_lower cs) = None"
      using combined_re_lower [of ucd "c # cs"] by simp
    with None 2 show ?thesis by simp
  next
    case (Some r)
    then have "combined_re ucd (ascii_lower c # map ascii_lower cs) = Some (map ascii_lower r)"
      using combined_re_lower [of ucd "c # cs"] by simp
    with Some 2 show ?thesis by simp
  qed
qed

subsection \<open>A match is a piece of the text\<close>

lemma lazy_until_set: "lazy_until d s = Some r \<Longrightarrow> set r \<subseteq> set s"
  by (induction s) (auto split: if_splits)

lemma greedy_until_set: "greedy_until d s = Some r \<Longrightarrow> set r \<subseteq> set s"
  by (induction s arbitrary: r) (fastforce split: if_splits option.splits)+

lemma many1_set: "many1 p s = Some r \<Longrightarrow> set r \<subseteq> set s"
  by (auto simp: many1_def split: if_splits dest: set_dropWhileD)

lemma combined_re_set:
  assumes "combined_re ucd s = Some r"
  shows "set r \<subseteq> set s"
proof (cases s)
  case Nil
  with assms show ?thesis by (simp add: re_defs)
next
  case (Cons c cs)
  have h: "match_html s = Some r \<Longrightarrow> set r \<subseteq> set s"
    using Cons by (auto split: if_splits dest: lazy_until_set)
  have l: "match_latex s = Some r \<Longrightarrow> set r \<subseteq> set s"
    using Cons by (auto split: if_splits dest: lazy_until_set)
  have n: "match_newline s = Some r \<Longrightarrow> set r \<subseteq> set s"
    using Cons by (auto split: if_splits)
  have u: "match_user ucd s = Some r \<Longrightarrow> set r \<subseteq> set s"
    using Cons by (auto split: if_splits dest: many1_set)
  have d: "match_digits ucd s = Some r \<Longrightarrow> set r \<subseteq> set s"
    using Cons many1_set [of "is_digit ucd" cs r] many1_set [of "is_digit ucd" "c # cs" r]
    by (auto split: if_splits option.splits)
  have t: "match_tags s = Some r \<Longrightarrow> set r \<subseteq> set s"
  proof (cases cs)
    case Nil
    with Cons show "match_tags s = Some r \<Longrightarrow> ?thesis" by simp
  next
    case (Cons x xs)
    with \<open>s = c # cs\<close> show "match_tags s = Some r \<Longrightarrow> ?thesis"
      by (auto split: if_splits dest: greedy_until_set)
  qed
  from assms h l n u d t show ?thesis
    by (auto simp: combined_re_def orelse_def split: option.splits)
qed

lemma re_sub_set: "set (re_sub ucd s) \<subseteq> set s"
proof (induction ucd s rule: re_sub.induct)
  case (1 ucd)
  then show ?case by simp
next
  case (2 ucd c cs)
  show ?case
  proof (cases "combined_re ucd (c # cs)")
    case None
    with 2 show ?thesis by auto
  next
    case (Some r)
    with 2 combined_re_set [OF Some] show ?thesis by auto
  qed
qed

lemma re_sub_str_lower_ascii:
  assumes "list_all is_ascii s"
  shows "re_sub ucd (str_lower ucd s) = str_lower ucd (re_sub ucd s)"
proof -
  from assms re_sub_set [of ucd s] have "list_all is_ascii (re_sub ucd s)"
    by (auto simp: list_all_iff)
  with assms show ?thesis by (simp add: str_lower_def re_sub_lower)
qed

subsection \<open>The bracket pattern\<close>

lemma greedy_until_none:
  "d \<noteq> newline \<Longrightarrow> d \<notin> set (takeWhile (\<lambda>c. c \<noteq> newline) s) \<Longrightarrow> greedy_until d s = None"
  by (induction s) (auto split: if_splits)

lemma greedy_until_last:
  assumes "d \<noteq> newline" and "d \<notin> set (takeWhile (\<lambda>c. c \<noteq> newline) post)"
  shows "newline \<notin> set mid \<Longrightarrow> greedy_until d (mid @ d # post) = Some post"
proof (induction mid)
  case Nil
  from assms have "greedy_until d post = None" by (rule greedy_until_none)
  with assms(1) show ?case by simp
next
  case (Cons c cs)
  then show ?case by simp
qed

lemma match_tags_span:
  assumes "mid \<noteq> []" and "newline \<notin> set mid"
    and "ord CHR '']'' \<notin> set (takeWhile (\<lambda>c. c \<noteq> newline) post)"
  shows "match_tags (ord CHR ''['' # mid @ ord CHR '']'' # post) = Some post"
proof -
  from assms(1) obtain x xs where mid: "mid = x # xs" by (cases mid) auto
  with assms(2) have x: "x \<noteq> newline" and xs: "newline \<notin> set xs" by auto
  have "ord CHR '']'' \<noteq> newline" by (simp add: ord_def newline_def)
  from greedy_until_last [OF this assms(3) xs] x mid show ?thesis by simp
qed

lemma combined_re_bracket:
  "combined_re ucd (ord CHR ''['' # t) = match_tags (ord CHR ''['' # t)"
  by (simp add: char_classes re_defs)

lemma combined_re_plain:
  assumes "c \<notin> {ord CHR ''<'', ord CHR ''$'', newline, ord CHR ''@'', ord CHR ''+'',
                 ord CHR ''-'', ord CHR ''[''}"
    and "\<not> is_digit ucd c"
  shows "combined_re ucd (c # t) = None"
proof -
  have "match_tags (c # t) = None" using assms(1) by (cases t) auto
  with assms show ?thesis by (simp add: re_defs)
qed

lemma re_sub_plain_prefix:
  assumes "\<forall>c\<in>set pre.
      c \<notin> {ord CHR ''<'', ord CHR ''$'', newline, ord CHR ''@'', ord CHR ''+'',
             ord CHR ''-'', ord CHR ''[''} \<and> \<not> is_digit ucd c"
  shows "re_sub ucd (pre @ s) = pre @ re_sub ucd s"
  using assms
proof (induction pre)
  case Nil
  then show ?case by simp
next
  case (Cons c cs)
  then have "combined_re ucd (c # cs @ s) = None" by (intro combined_re_plain) simp_all
  with Cons show ?case by simp
qed

lemma re_sub_bracket_span:
  assumes "\<forall>c\<in>set pre.
      c \<notin> {ord CHR ''<'', ord CHR ''$'', newline, ord CHR ''@'', ord CHR ''+'',
             ord CHR ''-'', ord CHR ''[''} \<and> \<not> is_digit ucd c"
    and "mid \<noteq> []" and "newline \<notin> set mid"
    and "ord CHR '']'' \<notin> set (takeWhile (\<lambda>c. c \<noteq> newline) post)"
  shows "re_sub ucd (pre @ ord CHR ''['' # mid @ ord CHR '']'' # post) = pre @ re_sub ucd post"
proof -
  have "combined_re ucd (ord CHR ''['' # mid @ ord CHR '']'' # post) = Some post"
    using match_tags_span [OF assms(2-4)] by (simp only: combined_re_bracket)
  then have "re_sub ucd (ord CHR ''['' # mid @ ord CHR '']'' # post) = re_sub ucd post"
    by simp
  with re_sub_plain_prefix [OF assms(1)] show ?thesis by simp
qed

subsection \<open>The loader's errors\<close>

lemma coerce_int64_error: "coerce_int64 s = Inl e \<Longrightarrow> e = DataLoadError"
  by (auto simp: coerce_int64_def split: if_splits)

lemma coerce_int64_fails: "s \<noteq> [] \<Longrightarrow> \<not> int64_literal s \<Longrightarrow> coerce_int64 s = Inl DataLoadError"
  by (simp add: coerce_int64_def)

lemma coerce_row_error: "coerce_row raw = Inl e \<Longrightarrow> e = DataLoadError"
  by (auto simp: coerce_row_def split: sum.splits dest: coerce_int64_error)

lemma coerce_row_fails:
  assumes "cell \<in> {raw_post_id raw, raw_parent_id raw, raw_comment_id raw}"
    and "cell \<noteq> []" and "\<not> int64_literal cell"
  shows "coerce_row raw = Inl DataLoadError"
proof -
  have c: "coerce_int64 cell = Inl DataLoadError" using assms(2,3) by (rule coerce_int64_fails)
  have "\<exists>e. coerce_row raw = Inl e"
    using assms(1) c by (auto simp: coerce_row_def split: sum.splits)
  then show ?thesis by (auto dest: coerce_row_error)
qed

lemma read_csv_error: "read_csv fs file_name nrows = Inl e \<Longrightarrow> e = DataLoadError"
  by (auto simp: read_csv_def split: option.splits file_state.splits
      dest!: series_apply_Inl coerce_row_error)

lemma preprocess_load_error:
  "load_data fs file_name None = Inl e \<Longrightarrow> preprocess ucd fs file_name = Inl e"
  by (simp add: preprocess_def pipe_def)

section \<open>The claims\<close>

text \<open>
  C1. For every input table, each of the three transform stages returns a table with
  exactly the same number of rows as its input, and no row is added, removed or
  reordered: row \<open>i\<close> of the output of \<open>lowercase\<close> and of \<open>replace_text\<close> is row \<open>i\<close>
  of the input with its text rewritten, and the output of \<open>tokenize\<close>, cut back to the
  input's columns, is the input. \<open>lowercase\<close> and \<open>replace_text\<close> always return;
  \<open>tokenize\<close> returns whenever the tokenizer returns on the text of every row.
\<close>

theorem row_count_invariant:
  "length (lowercase ucd df) = length df
   \<and> length (replace_text ucd df) = length df
   \<and> (\<forall>i<length df.
         lowercase ucd df ! i = (df ! i)\<lparr>text_col := map_option (str_lower ucd) (text_col (df ! i))\<rparr>
       \<and> replace_text ucd df ! i = (df ! i)\<lparr>text_col := map_option (re_sub ucd) (text_col (df ! i))\<rparr>)
   \<and> (\<forall>out. tokenize df tok = Inr out \<longrightarrow> length out = length df \<and> map row.truncate out = df)
   \<and> ((\<forall>r\<in>set df. \<exists>ts. tok (text_col r) = Inr ts) \<longrightarrow> (\<exists>out. tokenize df tok = Inr out))"
proof (intro conjI allI impI)
  show "length (lowercase ucd df) = length df" by (simp add: lowercase_rows)
  show "length (replace_text ucd df) = length df" by (simp add: replace_text_rows)
next
  fix i assume "i < length df"
  then show "lowercase ucd df ! i = (df ! i)\<lparr>text_col := map_option (str_lower ucd) (text_col (df ! i))\<rparr>"
    by (simp add: lowercase_rows)
next
  fix i assume "i < length df"
  then show "replace_text ucd df ! i = (df ! i)\<lparr>text_col := map_option (re_sub ucd) (text_col (df ! i))\<rparr>"
    by (simp add: replace_text_rows)
next
  fix out assume "tokenize df tok = Inr out"
  then show "length out = length df" and "map row.truncate out = df"
    by (rule tokenize_rows)+
next
  assume "\<forall>r\<in>set df. \<exists>ts. tok (text_col r) = Inr ts"
  then show "\<exists>out. tokenize df tok = Inr out" by (rule tokenize_returns)
qed

theorem row_count_invariant_witness:
  "length (lowercase ucd_excerpt
      [\<lparr>post_id = Some 1, parent_id = None, comment_id = None,
        text_col = Some (str ''A <b>B</b>''), category = Some (str ''q'')\<rparr>,
       \<lparr>post_id = Some 2, parent_id = Some 1, comment_id = None,
        text_col = Some (str ''ok''), category = None\<rparr>]) = 2
   \<and> length (replace_text ucd_excerpt
      [\<lparr>post_id = Some 1, parent_id = None, comment_id = None,
        text_col = Some (str ''A <b>B</b>''), category = Some (str ''q'')\<rparr>,
       \<lparr>post_id = Some 2, parent_id = Some 1, comment_id = None,
        text_col = Some (str ''ok''), category = None\<rparr>]) = 2
   \<and> (\<exists>out. tokenize
      [\<lparr>post_id = Some 1, parent_id = None, comment_id = None,
        text_col = Some (str ''A <b>B</b>''), category = Some (str ''q'')\<rparr>,
       \<lparr>post_id = Some 2, parent_id = Some 1, comment_id = None,
        text_col = Some (str ''ok''), category = None\<rparr>] word_tokenize = Inr out
        \<and> length out = 2)"
  using row_count_invariant [of ucd_excerpt
      "[\<lparr>post_id = Some 1, parent_id = None, comment_id = None,
        text_col = Some (str ''A <b>B</b>''), category = Some (str ''q'')\<rparr>,
       \<lparr>post_id = Some 2, parent_id = Some 1, comment_id = None,
        text_col = Some (str ''ok''), category = None\<rparr>]" word_tokenize]
  by (auto simp: word_tokenize_def)

text \<open>
  C2, amended. For the two-row table whose texts are \<^verbatim>\<open><p>Is 3 > 2?</p>\<close> and
  \<^verbatim>\<open>@bob: $x=1$\<close> and whose categories are \<^verbatim>\<open>q\<close> and \<^verbatim>\<open>a\<close>, \<open>lowercase\<close> then
  \<open>replace_text\<close> yields the cleaned strings \<^verbatim>\<open>is  > ?\<close> and \<^verbatim>\<open>: \<close>; the tokenizer
  then returns the non-empty token sequences \<^verbatim>\<open>is > ?\<close> and \<^verbatim>\<open>:\<close>; the row count stays
  2 and the categories are unchanged.
\<close>

theorem end_to_end_scenario:
  "map text_col (replace_text ucd (lowercase ucd
      [\<lparr>post_id = p1, parent_id = q1, comment_id = c1,
        text_col = Some (str ''<p>Is 3 > 2?</p>''), category = Some (str ''q'')\<rparr>,
       \<lparr>post_id = p2, parent_id = q2, comment_id = c2,
        text_col = Some (str ''@bob: $x=1$''), category = Some (str ''a'')\<rparr>]))
     = [Some (str ''is  > ?''), Some (str '': '')]
   \<and> (\<exists>out. tokenize (replace_text ucd (lowercase ucd
      [\<lparr>post_id = p1, parent_id = q1, comment_id = c1,
        text_col = Some (str ''<p>Is 3 > 2?</p>''), category = Some (str ''q'')\<rparr>,
       \<lparr>post_id = p2, parent_id = q2, comment_id = c2,
        text_col = Some (str ''@bob: $x=1$''), category = Some (str ''a'')\<rparr>])) word_tokenize
       = Inr out
     \<and> length out = 2
     \<and> map tokens out = [[str ''is'', str ''>'', str ''?''], [str '':'']]
     \<and> tokens (out ! 0) \<noteq> [] \<and> tokens (out ! 1) \<noteq> []
     \<and> map category out = [Some (str ''q''), Some (str ''a'')])"
proof -
  have l1: "str_lower ucd (str ''<p>Is 3 > 2?</p>'') = str ''<p>is 3 > 2?</p>''"
    by (simp add: str_lower_def char_classes)
  have l2: "str_lower ucd (str ''@bob: $x=1$'') = str ''@bob: $x=1$''"
    by (simp add: str_lower_def char_classes)
  have r1: "re_sub ucd (str ''<p>is 3 > 2?</p>'') = str ''is  > ?''"
    by (simp add: char_classes re_defs)
  have r2: "re_sub ucd (str ''@bob: $x=1$'') = str '': ''"
    by (simp add: char_classes re_defs)
  have t1: "word_tokenize (Some (str ''is  > ?'')) = Inr [str ''is'', str ''>'', str ''?'']"
    by (simp add: word_tokenize_def flush_def is_space_def is_punct_def char_classes)
  have t2: "word_tokenize (Some (str '': '')) = Inr [str '':'']"
    by (simp add: word_tokenize_def flush_def is_space_def is_punct_def char_classes)
  have cleaned: "replace_text ucd (lowercase ucd
      [\<lparr>post_id = p1, parent_id = q1, comment_id = c1,
        text_col = Some (str ''<p>Is 3 > 2?</p>''), category = Some (str ''q'')\<rparr>,
       \<lparr>post_id = p2, parent_id = q2, comment_id = c2,
        text_col = Some (str ''@bob: $x=1$''), category = Some (str ''a'')\<rparr>])
     = [\<lparr>post_id = p1, parent_id = q1, comment_id = c1,
        text_col = Some (str ''is  > ?''), category = Some (str ''q'')\<rparr>,
       \<lparr>post_id = p2, parent_id = q2, comment_id = c2,
        text_col = Some (str '': ''), category = Some (str ''a'')\<rparr>]"
    by (simp add: lowercase_rows replace_text_rows l1 l2 r1 r2 del: re_sub.simps)
  have tok: "tokenize
      [\<lparr>post_id = p1, parent_id = q1, comment_id = c1,
        text_col = Some (str ''is  > ?''), category = Some (str ''q'')\<rparr>,
       \<lparr>post_id = p2, parent_id = q2, comment_id = c2,
        text_col = Some (str '': ''), category = Some (str ''a'')\<rparr>] word_tokenize
     = Inr [add_tokens \<lparr>post_id = p1, parent_id = q1, comment_id = c1,
              text_col = Some (str ''is  > ?''), category = Some (str ''q'')\<rparr>
              [str ''is'', str ''>'', str ''?''],
            add_tokens \<lparr>post_id = p2, parent_id = q2, comment_id = c2,
              text_col = Some (str '': ''), category = Some (str ''a'')\<rparr> [str '':'']]"
    by (simp add: tokenize_def assign_tokens_def t1 t2)
  show ?thesis
    unfolding cleaned tok by (simp add: add_tokens_def)
qed

text \<open>
  C2 as stated fails on its first row: the \<^verbatim>\<open>></\<close> between the two numbers is no noise
  pattern and stays, so the cleaned string is \<^verbatim>\<open>is  > ?\<close>, not \<^verbatim>\<open>is  2?\<close>.
\<close>

theorem end_to_end_scenario_counterexample:
  "map text_col (replace_text ucd_excerpt (lowercase ucd_excerpt
      [\<lparr>post_id = None, parent_id = None, comment_id = None,
        text_col = Some (str ''<p>Is 3 > 2?</p>''), category = Some (str ''q'')\<rparr>,
       \<lparr>post_id = None, parent_id = None, comment_id = None,
        text_col = Some (str ''@bob: $x=1$''), category = Some (str ''a'')\<rparr>]))
     \<noteq> [Some (str ''is  2?''), Some (str '': '')]"
proof -
  have l1: "str_lower ucd_excerpt (str ''<p>Is 3 > 2?</p>'') = str ''<p>is 3 > 2?</p>''"
    by (simp add: str_lower_def char_classes)
  have r1: "re_sub ucd_excerpt (str ''<p>is 3 > 2?</p>'') = str ''is  > ?''"
    by (simp add: char_classes re_defs)
  have ne: "str ''is  > ?'' \<noteq> str ''is  2?''"
    by (simp add: char_classes)
  show ?thesis
    by (simp add: lowercase_rows replace_text_rows l1 r1 ne del: re_sub.simps)
qed

text \<open>
  C3, amended. The bracket pattern is greedy within a line: where the scan is at a
  \<^verbatim>\<open>[\<close> that is followed by at least one character and then a \<^verbatim>\<open>]\<close> on the same line,
  the single match there runs to the last \<^verbatim>\<open>]\<close> of that line, whatever brackets lie
  between; so for any row whose text has, before its first \<^verbatim>\<open>[\<close>, no character at which
  a noise pattern can start, everything from the first \<^verbatim>\<open>[\<close> to the last \<^verbatim>\<open>]\<close> of that
  line is deleted as one match; in particular, stripping \<^verbatim>\<open>see [ref1][ref2] here\<close>
  returns \<^verbatim>\<open>see  here\<close>.
\<close>

theorem bracket_pattern_greedy:
  "(mid \<noteq> [] \<and> newline \<notin> set mid
    \<and> ord CHR '']'' \<notin> set (takeWhile (\<lambda>c. c \<noteq> newline) post)
    \<longrightarrow> combined_re ucd (ord CHR ''['' # mid @ ord CHR '']'' # post) = Some post)
   \<and> (i < length df
    \<and> text_col (df ! i) = Some (pre @ ord CHR ''['' # mid @ ord CHR '']'' # post)
    \<and> (\<forall>c\<in>set pre.
          c \<notin> {ord CHR ''<'', ord CHR ''$'', newline, ord CHR ''@'', ord CHR ''+'',
                 ord CHR ''-'', ord CHR ''[''} \<and> \<not> is_digit ucd c)
    \<and> mid \<noteq> [] \<and> newline \<notin> set mid
    \<and> ord CHR '']'' \<notin> set (takeWhile (\<lambda>c. c \<noteq> newline) post)
    \<longrightarrow> text_col (replace_text ucd df ! i) = Some (pre @ re_sub ucd post))
   \<and> replace_text ucd [r\<lparr>text_col := Some (str ''see [ref1][ref2] here'')\<rparr>]
       = [r\<lparr>text_col := Some (str ''see  here'')\<rparr>]"
proof (intro conjI impI)
  assume "mid \<noteq> [] \<and> newline \<notin> set mid
    \<and> ord CHR '']'' \<notin> set (takeWhile (\<lambda>c. c \<noteq> newline) post)"
  then have "match_tags (ord CHR ''['' # mid @ ord CHR '']'' # post) = Some post"
    by (intro match_tags_span) simp_all
  then show "combined_re ucd (ord CHR ''['' # mid @ ord CHR '']'' # post) = Some post"
    by (simp only: combined_re_bracket)
next
  assume a: "i < length df
    \<and> text_col (df ! i) = Some (pre @ ord CHR ''['' # mid @ ord CHR '']'' # post)
    \<and> (\<forall>c\<in>set pre.
          c \<notin> {ord CHR ''<'', ord CHR ''$'', newline, ord CHR ''@'', ord CHR ''+'',
                 ord CHR ''-'', ord CHR ''[''} \<and> \<not> is_digit ucd c)
    \<and> mid \<noteq> [] \<and> newline \<notin> set mid
    \<and> ord CHR '']'' \<notin> set (takeWhile (\<lambda>c. c \<noteq> newline) post)"
  then have "re_sub ucd (pre @ ord CHR ''['' # mid @ ord CHR '']'' # post) = pre @ re_sub ucd post"
    by (intro re_sub_bracket_span) simp_all
  with a show "text_col (replace_text ucd df ! i) = Some (pre @ re_sub ucd post)"
    by (simp add: replace_text_rows)
next
  have "re_sub ucd (str ''see [ref1][ref2] here'') = str ''see  here''"
    by (simp add: char_classes re_defs)
  then show "replace_text ucd [r\<lparr>text_col := Some (str ''see [ref1][ref2] here'')\<rparr>]
       = [r\<lparr>text_col := Some (str ''see  here'')\<rparr>]"
    by (simp add: replace_text_rows)
qed

theorem bracket_pattern_greedy_witness:
  "combined_re ucd_excerpt (str ''[ref1][ref2] here'') = Some (str '' here'')
   \<and> text_col (replace_text ucd_excerpt
      [\<lparr>post_id = Some 1, parent_id = None, comment_id = None,
        text_col = Some (str ''see [ref1][ref2] here''), category = None\<rparr>] ! 0)
     = Some (str ''see  here'')"
proof
  let ?df = "[\<lparr>post_id = Some 1, parent_id = None, comment_id = None,
        text_col = Some (str ''see [ref1][ref2] here''), category = None\<rparr>]"
  note t = bracket_pattern_greedy [of "str ''ref1][ref2''" "str '' here''" ucd_excerpt 0 ?df
      "str ''see ''"]
  have g: "str ''ref1][ref2'' \<noteq> [] \<and> newline \<notin> set (str ''ref1][ref2'')
    \<and> ord CHR '']'' \<notin> set (takeWhile (\<lambda>c. c \<noteq> newline) (str '' here''))"
    by (simp add: char_classes)
  from t [THEN conjunct1, THEN mp, OF g]
  have "combined_re ucd_excerpt
          (ord CHR ''['' # str ''ref1][ref2'' @ ord CHR '']'' # str '' here'') = Some (str '' here'')" .
  then show "combined_re ucd_excerpt (str ''[ref1][ref2] here'') = Some (str '' here'')"
    by (simp add: str_def)
  have h: "0 < length ?df
    \<and> text_col (?df ! 0)
        = Some (str ''see '' @ ord CHR ''['' # str ''ref1][ref2'' @ ord CHR '']'' # str '' here'')
    \<and> (\<forall>c\<in>set (str ''see '').
          c \<notin> {ord CHR ''<'', ord CHR ''$'', newline, ord CHR ''@'', ord CHR ''+'',
                 ord CHR ''-'', ord CHR ''[''} \<and> \<not> is_digit ucd_excerpt c)
    \<and> str ''ref1][ref2'' \<noteq> [] \<and> newline \<notin> set (str ''ref1][ref2'')
    \<and> ord CHR '']'' \<notin> set (takeWhile (\<lambda>c. c \<noteq> newline) (str '' here''))"
    by (simp add: char_classes)
  from t [THEN conjunct2, THEN conjunct1, THEN mp, OF h]
  have r: "text_col (replace_text ucd_excerpt ?df ! 0)
             = Some (str ''see '' @ re_sub ucd_excerpt (str '' here''))" .
  have e: "str ''see '' @ re_sub ucd_excerpt (str '' here'') = str ''see  here''"
    by (simp add: char_classes re_defs)
  from r e show "text_col (replace_text ucd_excerpt ?df ! 0) = Some (str ''see  here'')"
    by (simp only:)
qed

text \<open>
  C3 as stated fails when the brackets are on different lines: in
  \<^verbatim>\<open>[a] x\ny [b]\<close> the two spans are matched one by one (and the newline by its own
  pattern), so the text between them stays.
\<close>

theorem bracket_pattern_greedy_counterexample:
  "replace_text ucd_excerpt
      [\<lparr>post_id = None, parent_id = None, comment_id = None,
        text_col = Some (str ''[a] x'' @ newline # str ''y [b]''), category = None\<rparr>]
     = [\<lparr>post_id = None, parent_id = None, comment_id = None,
         text_col = Some (str '' xy ''), category = None\<rparr>]
   \<and> str '' xy '' \<noteq> spec_delete_first_to_last (str ''[a] x'' @ newline # str ''y [b]'')"
proof
  have "re_sub ucd_excerpt (str ''[a] x'' @ newline # str ''y [b]'') = str '' xy ''"
    by (simp add: char_classes re_defs)
  then show "replace_text ucd_excerpt
      [\<lparr>post_id = None, parent_id = None, comment_id = None,
        text_col = Some (str ''[a] x'' @ newline # str ''y [b]''), category = None\<rparr>]
     = [\<lparr>post_id = None, parent_id = None, comment_id = None,
         text_col = Some (str '' xy ''), category = None\<rparr>]"
    by (simp add: replace_text_rows del: re_sub.simps)
  show "str '' xy '' \<noteq> spec_delete_first_to_last (str ''[a] x'' @ newline # str ''y [b]'')"
    by (simp add: spec_delete_first_to_last_def char_classes)
qed

text \<open>
  C4. \<open>load_data\<close> fails with a \<open>DataLoadError\<close> whenever the file does not exist, is
  unreadable, or a row that is read has an identifier cell that cannot be coerced to a
  64-bit integer (e.g. non-numeric content); the error is not recovered:
  \<open>preprocess\<close> hands it on to its caller and returns no table.
\<close>

theorem load_data_fails_with_DataLoadError:
  "(fs file_name = None \<longrightarrow> load_data fs file_name nrows = Inl DataLoadError)
   \<and> (fs file_name = Some Unreadable \<longrightarrow> load_data fs file_name nrows = Inl DataLoadError)
   \<and> (fs file_name = Some (Content raws)
        \<and> raw \<in> set (case nrows of None \<Rightarrow> raws | Some n \<Rightarrow> take n raws)
        \<and> cell \<in> {raw_post_id raw, raw_parent_id raw, raw_comment_id raw}
        \<and> cell \<noteq> [] \<and> \<not> int64_literal cell
        \<longrightarrow> load_data fs file_name nrows = Inl DataLoadError)
   \<and> (\<forall>e. load_data fs file_name None = Inl e \<longrightarrow> preprocess ucd fs file_name = Inl e)"
proof (intro conjI allI impI)
  assume "fs file_name = None"
  then show "load_data fs file_name nrows = Inl DataLoadError"
    by (simp add: load_data_def read_csv_def)
next
  assume "fs file_name = Some Unreadable"
  then show "load_data fs file_name nrows = Inl DataLoadError"
    by (simp add: load_data_def read_csv_def)
next
  assume a: "fs file_name = Some (Content raws)
        \<and> raw \<in> set (case nrows of None \<Rightarrow> raws | Some n \<Rightarrow> take n raws)
        \<and> cell \<in> {raw_post_id raw, raw_parent_id raw, raw_comment_id raw}
        \<and> cell \<noteq> [] \<and> \<not> int64_literal cell"
  then have "coerce_row raw = Inl DataLoadError" by (intro coerce_row_fails [of cell]) simp_all
  with a series_apply_raises [of raw "case nrows of None \<Rightarrow> raws | Some n \<Rightarrow> take n raws"
      coerce_row DataLoadError]
  obtain e where "read_csv fs file_name nrows = Inl e" by (auto simp: read_csv_def)
  with read_csv_error [of fs file_name nrows e]
  show "load_data fs file_name nrows = Inl DataLoadError" by (simp add: load_data_def)
next
  fix e assume "load_data fs file_name None = Inl e"
  then show "preprocess ucd fs file_name = Inl e" by (rule preprocess_load_error)
qed

theorem load_data_fails_with_DataLoadError_witness:
  "load_data
      (\<lambda>p. if p = ''posts.csv'' then Some (Content
                [\<lparr>raw_post_id = str ''12'', raw_parent_id = [], raw_comment_id = [],
                  raw_text = str ''Hi'', raw_category = str ''q''\<rparr>,
                 \<lparr>raw_post_id = str ''abc'', raw_parent_id = [], raw_comment_id = [],
                  raw_text = str ''Ho'', raw_category = str ''a''\<rparr>])
           else if p = ''locked.csv'' then Some Unreadable else None)
      ''posts.csv'' None = Inl DataLoadError
   \<and> preprocess ucd_excerpt
      (\<lambda>p. if p = ''posts.csv'' then Some (Content
                [\<lparr>raw_post_id = str ''12'', raw_parent_id = [], raw_comment_id = [],
                  raw_text = str ''Hi'', raw_category = str ''q''\<rparr>,
                 \<lparr>raw_post_id = str ''abc'', raw_parent_id = [], raw_comment_id = [],
                  raw_text = str ''Ho'', raw_category = str ''a''\<rparr>])
           else if p = ''locked.csv'' then Some Unreadable else None)
      ''posts.csv'' = Inl DataLoadError
   \<and> load_data
      (\<lambda>p. if p = ''posts.csv'' then Some (Content
                [\<lparr>raw_post_id = str ''12'', raw_parent_id = [], raw_comment_id = [],
                  raw_text = str ''Hi'', raw_category = str ''q''\<rparr>,
                 \<lparr>raw_post_id = str ''abc'', raw_parent_id = [], raw_comment_id = [],
                  raw_text = str ''Ho'', raw_category = str ''a''\<rparr>])
           else if p = ''locked.csv'' then Some Unreadable else None)
      ''locked.csv'' None = Inl DataLoadError
   \<and> load_data
      (\<lambda>p. if p = ''posts.csv'' then Some (Content
                [\<lparr>raw_post_id = str ''12'', raw_parent_id = [], raw_comment_id = [],
                  raw_text = str ''Hi'', raw_category = str ''q''\<rparr>,
                 \<lparr>raw_post_id = str ''abc'', raw_parent_id = [], raw_comment_id = [],
                  raw_text = str ''Ho'', raw_category = str ''a''\<rparr>])
           else if p = ''locked.csv'' then Some Unreadable else None)
      ''nowhere.csv'' None = Inl DataLoadError
   \<and> load_data
      (\<lambda>p. if p = ''posts.csv'' then Some (Content
                [\<lparr>raw_post_id = str ''12'', raw_parent_id = [], raw_comment_id = [],
                  raw_text = str ''Hi'', raw_category = str ''q''\<rparr>,
                 \<lparr>raw_post_id = str ''abc'', raw_parent_id = [], raw_comment_id = [],
                  raw_text = str ''Ho'', raw_category = str ''a''\<rparr>])
           else if p = ''locked.csv'' then Some Unreadable else None)
      ''posts.csv'' (Some 1)
     = Inr [\<lparr>post_id = Some 12, parent_id = None, comment_id = None,
             text_col = Some (str ''Hi''), category = Some (str ''q'')\<rparr>]"
proof -
  let ?good = "\<lparr>raw_post_id = str ''12'', raw_parent_id = [], raw_comment_id = [],
                  raw_text = str ''Hi'', raw_category = str ''q''\<rparr>"
  let ?bad = "\<lparr>raw_post_id = str ''abc'', raw_parent_id = [], raw_comment_id = [],
                  raw_text = str ''Ho'', raw_category = str ''a''\<rparr>"
  let ?fs = "\<lambda>p. if p = ''posts.csv'' then Some (Content [?good, ?bad])
           else if p = ''locked.csv'' then Some Unreadable else None"
  note t = load_data_fails_with_DataLoadError
  have h: "?fs ''posts.csv'' = Some (Content [?good, ?bad])
        \<and> ?bad \<in> set (case None of None \<Rightarrow> [?good, ?bad] | Some n \<Rightarrow> take n [?good, ?bad])
        \<and> str ''abc'' \<in> {raw_post_id ?bad, raw_parent_id ?bad, raw_comment_id ?bad}
        \<and> str ''abc'' \<noteq> [] \<and> \<not> int64_literal (str ''abc'')"
    by (simp add: int64_literal_def parse_int_def char_classes)
  have a: "load_data ?fs ''posts.csv'' None = Inl DataLoadError"
    by (rule t [of ?fs "''posts.csv''" None "[?good, ?bad]" ?bad "str ''abc''" ucd_excerpt,
          THEN conjunct2, THEN conjunct2, THEN conjunct1, THEN mp, OF h])
  have b: "preprocess ucd_excerpt ?fs ''posts.csv'' = Inl DataLoadError"
    using t [of ?fs "''posts.csv''" None "[?good, ?bad]" ?bad "str ''abc''" ucd_excerpt] a
    by blast
  have c: "load_data ?fs ''locked.csv'' None = Inl DataLoadError"
    using t [of ?fs "''locked.csv''" None "[]" ?bad "[]" ucd_excerpt] by simp
  have d: "load_data ?fs ''nowhere.csv'' None = Inl DataLoadError"
    using t [of ?fs "''nowhere.csv''" None "[]" ?bad "[]" ucd_excerpt] by simp
  have e: "load_data ?fs ''posts.csv'' (Some 1)
     = Inr [\<lparr>post_id = Some 12, parent_id = None, comment_id = None,
             text_col = Some (str ''Hi''), category = Some (str ''q'')\<rparr>]"
    by (simp add: load_data_def read_csv_def coerce_row_def coerce_int64_def coerce_string_def
        int64_literal_def parse_int_def char_classes)
  from a b c d e show ?thesis by (intro conjI)
qed

text \<open>
  C5. For every table, a row whose text is null still has a null text after
  \<open>lowercase\<close> and after \<open>replace_text\<close>. Both stages are total functions: neither has
  an error to raise.
\<close>

theorem null_text_stays_null:
  "i < length df \<Longrightarrow> text_col (df ! i) = None \<Longrightarrow>
     i < length (lowercase ucd df) \<and> text_col (lowercase ucd df ! i) = None
   \<and> i < length (replace_text ucd df) \<and> text_col (replace_text ucd df ! i) = None"
  by (simp add: lowercase_rows replace_text_rows)

theorem null_text_stays_null_witness:
  "text_col (lowercase ucd_excerpt
      [\<lparr>post_id = Some 7, parent_id = None, comment_id = Some 3,
        text_col = None, category = Some (str ''a'')\<rparr>] ! 0) = None
   \<and> text_col (replace_text ucd_excerpt
      [\<lparr>post_id = Some 7, parent_id = None, comment_id = Some 3,
        text_col = None, category = Some (str ''a'')\<rparr>] ! 0) = None"
  using null_text_stays_null [of 0
      "[\<lparr>post_id = Some 7, parent_id = None, comment_id = Some 3,
        text_col = None, category = Some (str ''a'')\<rparr>]" ucd_excerpt]
  by simp

text \<open>
  C6. For every table and every row, \<open>lowercase\<close> and \<open>replace_text\<close> modify only
  the text: \<open>post_id\<close>, \<open>parent_id\<close>, \<open>comment_id\<close> and \<open>category\<close> of every row are the
  same before and after each of the two stages.
\<close>

theorem only_text_modified:
  "i < length df \<Longrightarrow>
     post_id (lowercase ucd df ! i) = post_id (df ! i)
   \<and> parent_id (lowercase ucd df ! i) = parent_id (df ! i)
   \<and> comment_id (lowercase ucd df ! i) = comment_id (df ! i)
   \<and> category (lowercase ucd df ! i) = category (df ! i)
   \<and> post_id (replace_text ucd df ! i) = post_id (df ! i)
   \<and> parent_id (replace_text ucd df ! i) = parent_id (df ! i)
   \<and> comment_id (replace_text ucd df ! i) = comment_id (df ! i)
   \<and> category (replace_text ucd df ! i) = category (df ! i)"
  by (simp add: lowercase_rows replace_text_rows)

theorem only_text_modified_witness:
  "post_id (lowercase ucd_excerpt
      [\<lparr>post_id = Some 7, parent_id = None, comment_id = Some 3,
        text_col = Some (str ''See <I>THIS</I>''), category = Some (str ''Q'')\<rparr>] ! 0) = Some 7
   \<and> category (lowercase ucd_excerpt
      [\<lparr>post_id = Some 7, parent_id = None, comment_id = Some 3,
        text_col = Some (str ''See <I>THIS</I>''), category = Some (str ''Q'')\<rparr>] ! 0) = Some (str ''Q'')
   \<and> comment_id (replace_text ucd_excerpt
      [\<lparr>post_id = Some 7, parent_id = None, comment_id = Some 3,
        text_col = Some (str ''See <I>THIS</I>''), category = Some (str ''Q'')\<rparr>] ! 0) = Some 3
   \<and> category (replace_text ucd_excerpt
      [\<lparr>post_id = Some 7, parent_id = None, comment_id = Some 3,
        text_col = Some (str ''See <I>THIS</I>''), category = Some (str ''Q'')\<rparr>] ! 0) = Some (str ''Q'')"
  using only_text_modified [of 0
      "[\<lparr>post_id = Some 7, parent_id = None, comment_id = Some 3,
        text_col = Some (str ''See <I>THIS</I>''), category = Some (str ''Q'')\<rparr>]" ucd_excerpt]
  by simp

text \<open>
  C7. \<open>preprocess\<close>, given a file path, runs the loader, then \<open>lowercase\<close>, then
  \<open>replace_text\<close>, then \<open>tokenize\<close> (with its default tokenizer), in that order, and
  returns the resulting table: \<open>preprocess(path)\<close> is
  \<open>tokenize(replace_text(lowercase(load_data(path))))\<close>, and what the loader raises,
  \<open>preprocess\<close> raises.
\<close>

theorem preprocess_is_composition:
  "preprocess ucd fs file_name =
     (case load_data fs file_name None of
        Inl e \<Rightarrow> Inl e
      | Inr df \<Rightarrow> tokenize (replace_text ucd (lowercase ucd df)) word_tokenize)"
  by (simp add: preprocess_def pipe_def split: sum.splits)

theorem preprocess_is_composition_witness:
  "preprocess ucd_excerpt
      (\<lambda>p. if p = ''posts.csv'' then Some (Content
                [\<lparr>raw_post_id = str ''12'', raw_parent_id = [], raw_comment_id = str ''7'',
                  raw_text = str ''Hello <b>World</b>!'', raw_category = str ''q''\<rparr>])
           else None)
      ''posts.csv''
     = Inr [\<lparr>post_id = Some 12, parent_id = None, comment_id = Some 7,
             text_col = Some (str ''hello world!''), category = Some (str ''q''),
             tokens = [str ''hello'', str ''world'', str ''!'']\<rparr>]"
proof -
  let ?fs = "\<lambda>p. if p = ''posts.csv'' then Some (Content
                [\<lparr>raw_post_id = str ''12'', raw_parent_id = [], raw_comment_id = str ''7'',
                  raw_text = str ''Hello <b>World</b>!'', raw_category = str ''q''\<rparr>])
           else None"
  have ld: "load_data ?fs ''posts.csv'' None
     = Inr [\<lparr>post_id = Some 12, parent_id = None, comment_id = Some 7,
             text_col = Some (str ''Hello <b>World</b>!''), category = Some (str ''q'')\<rparr>]"
    by (simp add: load_data_def read_csv_def coerce_row_def coerce_int64_def coerce_string_def
        int64_literal_def parse_int_def char_classes)
  have lo: "str_lower ucd_excerpt (str ''Hello <b>World</b>!'') = str ''hello <b>world</b>!''"
    by (simp add: str_lower_def char_classes)
  have rs: "re_sub ucd_excerpt (str ''hello <b>world</b>!'') = str ''hello world!''"
    by (simp add: char_classes re_defs)
  have wt: "word_tokenize (Some (str ''hello world!''))
     = Inr [str ''hello'', str ''world'', str ''!'']"
    by (simp add: word_tokenize_def flush_def is_space_def is_punct_def char_classes)
  have cl: "replace_text ucd_excerpt (lowercase ucd_excerpt
       [\<lparr>post_id = Some 12, parent_id = None, comment_id = Some 7,
             text_col = Some (str ''Hello <b>World</b>!''), category = Some (str ''q'')\<rparr>])
     = [\<lparr>post_id = Some 12, parent_id = None, comment_id = Some 7,
             text_col = Some (str ''hello world!''), category = Some (str ''q'')\<rparr>]"
    by (simp add: lowercase_rows replace_text_rows lo rs del: re_sub.simps)
  have tk: "tokenize [\<lparr>post_id = Some 12, parent_id = None, comment_id = Some 7,
             text_col = Some (str ''hello world!''), category = Some (str ''q'')\<rparr>] word_tokenize
     = Inr [\<lparr>post_id = Some 12, parent_id = None, comment_id = Some 7,
             text_col = Some (str ''hello world!''), category = Some (str ''q''),
             tokens = [str ''hello'', str ''world'', str ''!'']\<rparr>]"
    by (simp add: tokenize_def assign_tokens_def add_tokens_def wt)
  show ?thesis
    unfolding preprocess_is_composition [of ucd_excerpt ?fs "''posts.csv''"] ld
    by (simp only: sum.case cl tk)
qed

text \<open>
  C8, amended. For every table whose texts are pure ASCII, \<open>lowercase\<close> then
  \<open>replace_text\<close> yields the same table as \<open>replace_text\<close> then \<open>lowercase\<close>: no
  noise pattern depends on the case of an ASCII letter.
\<close>

theorem lowercase_replace_text_commute_ascii:
  assumes "\<forall>r\<in>set df. \<forall>s. text_col r = Some s \<longrightarrow> list_all is_ascii s"
  shows "replace_text ucd (lowercase ucd df) = lowercase ucd (replace_text ucd df)"
proof -
  have "map_option (re_sub ucd) (map_option (str_lower ucd) (text_col r))
          = map_option (str_lower ucd) (map_option (re_sub ucd) (text_col r))"
    if "r \<in> set df" for r
  proof (cases "text_col r")
    case None
    then show ?thesis by simp
  next
    case (Some s)
    with assms that have "list_all is_ascii s" by blast
    with Some show ?thesis by (simp add: re_sub_str_lower_ascii)
  qed
  then show ?thesis by (simp add: lowercase_rows replace_text_rows)
qed

theorem lowercase_replace_text_commute_ascii_witness:
  "replace_text ucd_excerpt (lowercase ucd_excerpt
      [\<lparr>post_id = Some 1, parent_id = None, comment_id = None,
        text_col = Some (str ''See <B>Fig</B> 42 @Bob''), category = Some (str ''q'')\<rparr>])
   = lowercase ucd_excerpt (replace_text ucd_excerpt
      [\<lparr>post_id = Some 1, parent_id = None, comment_id = None,
        text_col = Some (str ''See <B>Fig</B> 42 @Bob''), category = Some (str ''q'')\<rparr>])
   \<and> list_all is_ascii (str ''See <B>Fig</B> 42 @Bob'')"
  using lowercase_replace_text_commute_ascii [of
      "[\<lparr>post_id = Some 1, parent_id = None, comment_id = None,
        text_col = Some (str ''See <B>Fig</B> 42 @Bob''), category = Some (str ''q'')\<rparr>]"
       ucd_excerpt]
  by (simp add: is_ascii_def str_def ord_def)

text \<open>
  C8 as stated fails on a text outside ASCII: the three code points U+0040 U+0130
  U+0078 (an at sign, a capital I with dot above, an x). Lowercased first, the text is
  U+0040 U+0069 U+0307 U+0078, whose mention ends before the combining dot, so the dot
  and the x are left; stripped first, the whole text is one mention and nothing is left.
\<close>

theorem lowercase_replace_text_commute_counterexample:
  "replace_text ucd_excerpt (lowercase ucd_excerpt
      [\<lparr>post_id = None, parent_id = None, comment_id = None,
        text_col = Some [64, 304, 120], category = None\<rparr>])
   \<noteq> lowercase ucd_excerpt (replace_text ucd_excerpt
      [\<lparr>post_id = None, parent_id = None, comment_id = None,
        text_col = Some [64, 304, 120], category = None\<rparr>])"
proof -
  have a: "str_lower ucd_excerpt [64, 304, 120] = [64, 105, 775, 120]"
    by (simp add: str_lower_def is_ascii_def ucd_excerpt_def lower_excerpt_def ascii_lower_def
        ascii_upper_def)
  have b: "re_sub ucd_excerpt [64, 105, 775, 120] = [775, 120]"
    by (simp add: char_classes re_defs ucd_excerpt_def)
  have c: "re_sub ucd_excerpt [64, 304, 120] = []"
    by (simp add: char_classes re_defs ucd_excerpt_def)
  have d: "str_lower ucd_excerpt [] = []"
    by (simp add: str_lower_def)
  show ?thesis by (simp add: lowercase_rows replace_text_rows a b c d del: re_sub.simps)
qed

text \<open>
  C9. The Noise Stripper maps the listed example inputs to the listed outputs:
  \<^verbatim>\<open>Hello <b>world</b>\<close> becomes \<^verbatim>\<open>Hello world\<close>, \<^verbatim>\<open>cost is $5+3$ dollars\<close> becomes
  \<^verbatim>\<open>cost is  dollars\<close>, and \<^verbatim>\<open>value is -42 units\<close> becomes \<^verbatim>\<open>value is  units\<close>
  (as the \<^verbatim>\<open>text\<close> of a row of any table, whatever the other fields).
\<close>

theorem replace_text_examples:
  "replace_text ucd [r\<lparr>text_col := Some (str ''Hello <b>world</b>'')\<rparr>]
     = [r\<lparr>text_col := Some (str ''Hello world'')\<rparr>]
   \<and> replace_text ucd [r\<lparr>text_col := Some (str ''cost is $5+3$ dollars'')\<rparr>]
     = [r\<lparr>text_col := Some (str ''cost is  dollars'')\<rparr>]
   \<and> replace_text ucd [r\<lparr>text_col := Some (str ''value is -42 units'')\<rparr>]
     = [r\<lparr>text_col := Some (str ''value is  units'')\<rparr>]"
proof (intro conjI)
  have h: "re_sub ucd (str ''Hello <b>world</b>'') = str ''Hello world''"
    by (simp add: char_classes re_defs)
  show "replace_text ucd [r\<lparr>text_col := Some (str ''Hello <b>world</b>'')\<rparr>]
     = [r\<lparr>text_col := Some (str ''Hello world'')\<rparr>]"
    by (simp add: replace_text_rows h)
next
  have l: "re_sub ucd (str ''cost is $5+3$ dollars'') = str ''cost is  dollars''"
    by (simp add: char_classes re_defs)
  show "replace_text ucd [r\<lparr>text_col := Some (str ''cost is $5+3$ dollars'')\<rparr>]
     = [r\<lparr>text_col := Some (str ''cost is  dollars'')\<rparr>]"
    by (simp add: replace_text_rows l)
next
  have d: "re_sub ucd (str ''value is -42 units'') = str ''value is  units''"
    by (simp add: char_classes re_defs)
  show "replace_text ucd [r\<lparr>text_col := Some (str ''value is -42 units'')\<rparr>]
     = [r\<lparr>text_col := Some (str ''value is  units'')\<rparr>]"
    by (simp add: replace_text_rows d)
qed

text \<open>
  C10. \<open>tokenize\<close> applies the supplied tokenizer to the text of every row as it is,
  null included, and puts no empty string in the place of a null: the tokens of a row
  are what the tokenizer returns on the row's own text value; the stage raises exactly
  when the tokenizer raises on the text of some row, so with a null text it raises
  whenever the tokenizer raises on null; with the default word tokenizer a table with a
  null text makes the stage fail with the tokenizer's error instead of giving the row an
  empty token sequence.
\<close>

theorem tokenize_passes_null_to_tokenizer:
  "(\<forall>out. tokenize df tok = Inr out \<longrightarrow>
       length out = length df \<and> (\<forall>i<length df. tok (text_col (df ! i)) = Inr (tokens (out ! i))))
   \<and> (\<forall>e. tokenize df tok = Inl e \<longrightarrow> (\<exists>r\<in>set df. tok (text_col r) = Inl e))
   \<and> (\<forall>r e. r \<in> set df \<and> text_col r = None \<and> tok None = Inl e \<longrightarrow> (\<exists>e'. tokenize df tok = Inl e'))
   \<and> ((\<exists>r\<in>set df. text_col r = None) \<longrightarrow> tokenize df word_tokenize = Inl TypeError)"
proof (intro conjI allI impI)
  fix out assume t: "tokenize df tok = Inr out"
  show "length out = length df" by (rule tokenize_rows(1) [OF t])
  fix i assume "i < length df"
  then show "tok (text_col (df ! i)) = Inr (tokens (out ! i))" by (rule tokenize_rows(3) [OF t])
next
  fix e assume "tokenize df tok = Inl e"
  then show "\<exists>r\<in>set df. tok (text_col r) = Inl e" by (rule tokenize_Inl)
next
  fix r e assume "r \<in> set df \<and> text_col r = None \<and> tok None = Inl e"
  then have "r \<in> set df" and "tok (text_col r) = Inl e" by simp_all
  then show "\<exists>e'. tokenize df tok = Inl e'" by (rule tokenize_raises)
next
  assume "\<exists>r\<in>set df. text_col r = None"
  then obtain r where r: "r \<in> set df" and "text_col r = None" ..
  then have "word_tokenize (text_col r) = Inl TypeError" by (simp add: word_tokenize_def)
  with tokenize_raises [of r df word_tokenize TypeError] r
  obtain e' where e': "tokenize df word_tokenize = Inl e'" by blast
  from tokenize_Inl [OF e'] obtain r' :: row where "word_tokenize (text_col r') = Inl e'" by blast
  then have "e' = TypeError" by (auto simp: word_tokenize_def split: option.splits)
  with e' show "tokenize df word_tokenize = Inl TypeError" by simp
qed

theorem tokenize_passes_null_to_tokenizer_witness:
  "tokenize
      [\<lparr>post_id = Some 1, parent_id = None, comment_id = None,
        text_col = Some (str ''a b''), category = None\<rparr>,
       \<lparr>post_id = Some 2, parent_id = None, comment_id = None,
        text_col = None, category = None\<rparr>] word_tokenize = Inl TypeError
   \<and> (\<exists>e. tokenize
      [\<lparr>post_id = Some 1, parent_id = None, comment_id = None,
        text_col = Some (str ''a b''), category = None\<rparr>,
       \<lparr>post_id = Some 2, parent_id = None, comment_id = None,
        text_col = None, category = None\<rparr>]
      (\<lambda>v. case v of None \<Rightarrow> Inl (OtherError ''null'') | Some s \<Rightarrow> Inr []) = Inl e)
   \<and> word_tokenize (Some []) = Inr []"
proof -
  let ?r = "\<lparr>post_id = Some 2, parent_id = None, comment_id = None,
        text_col = None, category = None\<rparr> :: row"
  let ?df = "[\<lparr>post_id = Some 1, parent_id = None, comment_id = None,
        text_col = Some (str ''a b''), category = None\<rparr>, ?r]"
  let ?tok = "\<lambda>v. case v of None \<Rightarrow> Inl (OtherError ''null'') | Some s \<Rightarrow> Inr []"
  note t = tokenize_passes_null_to_tokenizer [of ?df ?tok]
  have "\<exists>r\<in>set ?df. text_col r = None" by simp
  with t have a: "tokenize ?df word_tokenize = Inl TypeError" by blast
  have "?r \<in> set ?df \<and> text_col ?r = None \<and> ?tok None = Inl (OtherError ''null'')" by simp
  with t have b: "\<exists>e. tokenize ?df ?tok = Inl e" by blast
  have c: "word_tokenize (Some []) = Inr []" by (simp add: word_tokenize_def flush_def)
  from a b c show ?thesis by blast
qed

end
